theory Spec2Isabelle
  imports Main "HOL-Library.Word"
begin

section \<open>Go strings, errors and the standard-library helpers the key codec uses\<close>

text \<open>
  A Go \<^verbatim>\<open>string\<close> is a sequence of bytes; \<^typ>\<open>string\<close> (a list of 8-bit
  \<^typ>\<open>char\<close>) is exactly that. A function returning \<^verbatim>\<open>(string, error)\<close> is modelled as a
  pair whose second component is \<^term>\<open>None\<close> for a \<^verbatim>\<open>nil\<close> error, so that both returned
  values of the source are visible. Each \<^verbatim>\<open>errors.Errorf\<close> call site of
  \<^verbatim>\<open>keys.go\<close> is one constructor carrying the arguments of its format string; the two
  \<^verbatim>\<open>errors.Wrapf\<close> call sites are the constructors that carry the wrapped cause.
\<close>

datatype error =
    NotEnoughComponents string nat "string list"
  | NotValidUTF8 string
  | ForbiddenRune nat nat
  | FailedToSplit error string
  | WrongComponentCount error string nat
  | NoTokenKeyPrefix string
  | NoTransferMetadataPrefix string

text \<open>
  \<^verbatim>\<open>errors.Wrapf\<close> of \<^verbatim>\<open>github.com/pkg/errors\<close>: annotates a non-nil error and returns
  \<^verbatim>\<open>nil\<close> when the error it is given is \<^verbatim>\<open>nil\<close>.
\<close>

definition Wrapf :: "error option \<Rightarrow> (error \<Rightarrow> error) \<Rightarrow> error option" where
  "Wrapf err annotate = (case err of None \<Rightarrow> None | Some e \<Rightarrow> Some (annotate e))"

subsection \<open>Constants of \<^verbatim>\<open>keys.go\<close>\<close>

definition minUnicodeRuneValue :: nat where
  "minUnicodeRuneValue = 0"

definition compositeKeyNamespace :: string where
  "compositeKeyNamespace = [CHR 0x00]"

definition MaxUnicodeRuneValue :: nat where
  "MaxUnicodeRuneValue = 0x10FFFF"

definition numComponentsInKey :: nat where
  "numComponentsInKey = 2"

definition TokenKeyPrefix :: string where
  "TokenKeyPrefix = ''ztoken''"

definition TokenSetupKeyPrefix :: string where
  "TokenSetupKeyPrefix = ''setup''"

definition TokenSetupHashKeyPrefix :: string where
  "TokenSetupHashKeyPrefix = ''setup.hash''"

definition TokenRequestKeyPrefix :: string where
  "TokenRequestKeyPrefix = ''token_request''"

definition SerialNumber :: string where
  "SerialNumber = ''sn''"

definition IssueActionMetadata :: string where
  "IssueActionMetadata = ''iam''"

definition TransferActionMetadata :: string where
  "TransferActionMetadata = ''tam''"

text \<open>
  \<^verbatim>\<open>string(rune(minUnicodeRuneValue))\<close>: the UTF-8 encoding of U+0000, the single byte
  \<^verbatim>\<open>0x00\<close>.
\<close>

definition delimiter :: string where
  "delimiter = [char_of minUnicodeRuneValue]"

subsection \<open>\<^verbatim>\<open>unicode/utf8\<close>: decoding one rune\<close>

text \<open>
  Runes and bytes are natural numbers here. \<^verbatim>\<open>utf8.DecodeRuneInString\<close> classifies the
  first byte (its table \<^verbatim>\<open>first\<close>: the length of the sequence, \<open>0\<close> for a byte that cannot
  start one), checks the second byte against the range that the first byte accepts
  (\<^verbatim>\<open>acceptRanges\<close>) and every later byte against \<^verbatim>\<open>0x80..0xBF\<close>. On any failure it
  returns \<^verbatim>\<open>(RuneError, 1)\<close>, on the empty string \<^verbatim>\<open>(RuneError, 0)\<close>. The masks and
  shifts of the source are written as \<open>mod\<close> and multiplication.
\<close>

definition RuneError :: nat where
  "RuneError = 0xFFFD"

definition lead_size :: "nat \<Rightarrow> nat" where
  "lead_size b =
     (if b < 0x80 then 1 else if b < 0xC2 then 0 else if b < 0xE0 then 2
      else if b < 0xF0 then 3 else if b < 0xF5 then 4 else 0)"

definition accept_lo :: "nat \<Rightarrow> nat" where
  "accept_lo b = (if b = 0xE0 then 0xA0 else if b = 0xF0 then 0x90 else 0x80)"

definition accept_hi :: "nat \<Rightarrow> nat" where
  "accept_hi b = (if b = 0xED then 0x9F else if b = 0xF4 then 0x8F else 0xBF)"

definition byte_at :: "string \<Rightarrow> nat \<Rightarrow> nat" where
  "byte_at s i = of_char (s ! i)"

definition DecodeRuneInString :: "string \<Rightarrow> nat \<times> nat" where
  "DecodeRuneInString s =
     (if length s < 1 then (RuneError, 0)
      else let s0 = byte_at s 0; sz = lead_size s0 in
        if sz = 0 then (RuneError, 1)
        else if sz = 1 then (s0, 1)
        else if length s < sz then (RuneError, 1)
        else let s1 = byte_at s 1 in
          if s1 < accept_lo s0 \<or> accept_hi s0 < s1 then (RuneError, 1)
          else if sz \<le> 2 then ((s0 mod 32) * 64 + s1 mod 64, 2)
          else let s2 = byte_at s 2 in
            if s2 < 0x80 \<or> 0xBF < s2 then (RuneError, 1)
            else if sz \<le> 3 then ((s0 mod 16) * 4096 + (s1 mod 64) * 64 + s2 mod 64, 3)
            else let s3 = byte_at s 3 in
              if s3 < 0x80 \<or> 0xBF < s3 then (RuneError, 1)
              else ((s0 mod 8) * 262144 + (s1 mod 64) * 4096 + (s2 mod 64) * 64
                    + s3 mod 64, 4))"

text \<open>
  \<^verbatim>\<open>utf8.ValidString\<close>: every position decodes to a rune; an ill-formed sequence is what
  decodes to \<^verbatim>\<open>RuneError\<close> of width one.
\<close>

function ValidString :: "string \<Rightarrow> bool" where
  "ValidString s =
     (if s = [] then True
      else let (r, size) = DecodeRuneInString s in
        if r = RuneError \<and> size = 1 then False else ValidString (drop size s))"
  by pat_completeness auto
termination
proof (relation "measure length")
  show "wf (measure length)" by simp
next
  fix s :: string and x :: "nat \<times> nat" and r size :: nat
  assume ne: "s \<noteq> []" and x: "x = DecodeRuneInString s" and rs: "(r, size) = x"
  from ne have "1 \<le> snd (DecodeRuneInString s)"
    by (cases s) (simp_all add: DecodeRuneInString_def Let_def)
  with x rs have "1 \<le> size" by (metis snd_conv)
  with ne show "(drop size s, s) \<in> measure length" by (cases s) auto
qed

text \<open>
  \<^verbatim>\<open>for index, runeValue := range str\<close> with the body of
  \<^verbatim>\<open>ValidateCompositeKeyAttribute\<close>: \<open>index\<close> is the byte offset of the rune, the loop
  advances by the width of the decoded rune and returns at the first forbidden rune.
\<close>

function range_check :: "nat \<Rightarrow> string \<Rightarrow> error option" where
  "range_check index s =
     (if s = [] then None
      else let (runeValue, size) = DecodeRuneInString s in
        if runeValue = minUnicodeRuneValue \<or> runeValue = MaxUnicodeRuneValue
        then Some (ForbiddenRune runeValue index)
        else range_check (index + size) (drop size s))"
  by pat_completeness auto
termination
proof (relation "measure (\<lambda>(i, s). length s)")
  show "wf (measure (\<lambda>(i, s). length s))" by simp
next
  fix index :: nat and s :: string and x :: "nat \<times> nat" and r size :: nat
  assume ne: "s \<noteq> []" and x: "x = DecodeRuneInString s" and rs: "(r, size) = x"
  from ne have "1 \<le> snd (DecodeRuneInString s)"
    by (cases s) (simp_all add: DecodeRuneInString_def Let_def)
  with x rs have "1 \<le> size" by (metis snd_conv)
  with ne show "((index + size, drop size s), (index, s)) \<in> measure (\<lambda>(i, s). length s)"
    by (cases s) auto
qed

text \<open>
  What \<^verbatim>\<open>for index, runeValue := range str\<close> enumerates: each rune with the byte offset
  at which it starts, \<open>index\<close> being the offset of the first byte of \<open>s\<close>.
\<close>

function range_string :: "nat \<Rightarrow> string \<Rightarrow> (nat \<times> nat) list" where
  "range_string index s =
     (if s = [] then []
      else let (r, size) = DecodeRuneInString s in
        (index, r) # range_string (index + size) (drop size s))"
  by pat_completeness auto
termination
proof (relation "measure (\<lambda>(i, s). length s)")
  show "wf (measure (\<lambda>(i, s). length s))" by simp
next
  fix index :: nat and s :: string and x :: "nat \<times> nat" and r size :: nat
  assume ne: "s \<noteq> []" and x: "x = DecodeRuneInString s" and rs: "(r, size) = x"
  from ne have "1 \<le> snd (DecodeRuneInString s)"
    by (cases s) (simp_all add: DecodeRuneInString_def Let_def)
  with x rs have "1 \<le> size" by (metis snd_conv)
  with ne show "((index + size, drop size s), (index, s)) \<in> measure (\<lambda>(i, s). length s)"
    by (cases s) auto
qed

definition runes :: "string \<Rightarrow> nat list" where
  "runes s = map snd (range_string 0 s)"

subsection \<open>\<^verbatim>\<open>strconv.FormatUint\<close> in base 10\<close>

text \<open>
  \<^verbatim>\<open>strconv\<close> takes each digit from its table \<^verbatim>\<open>digits\<close>, least significant first,
  and writes no leading zero; \<open>0\<close> is rendered as one digit.
\<close>

definition digits :: string where
  "digits = ''0123456789''"

function decimal :: "nat \<Rightarrow> string" where
  "decimal n = (if n < 10 then [digits ! n]
                else decimal (n div 10) @ [digits ! (n mod 10)])"
  by pat_completeness auto
termination
  by (relation "measure id") auto

definition FormatUint :: "64 word \<Rightarrow> string" where
  "FormatUint i = decimal (unat i)"

text \<open>The number that a string of decimal digits denotes, to say what \<open>decimal\<close> renders.\<close>

definition digits_value :: "string \<Rightarrow> nat" where
  "digits_value s = foldl (\<lambda>acc c. 10 * acc + (of_char c - 48)) 0 s"

section \<open>The key codec\<close>

definition ValidateCompositeKeyAttribute :: "string \<Rightarrow> error option" where
  "ValidateCompositeKeyAttribute str =
     (if \<not> ValidString str then Some (NotValidUTF8 str) else range_check 0 str)"

text \<open>The loop of \<^verbatim>\<open>CreateCompositeKey\<close> over the attributes, \<open>ck\<close> being the key so far.\<close>

fun append_attributes :: "string \<Rightarrow> string list \<Rightarrow> string \<times> error option" where
  "append_attributes ck [] = (ck, None)"
| "append_attributes ck (att # rest) =
     (case ValidateCompositeKeyAttribute att of
        Some err \<Rightarrow> ('''', Some err)
      | None \<Rightarrow> append_attributes (ck @ att @ delimiter) rest)"

definition CreateCompositeKey :: "string \<Rightarrow> string list \<Rightarrow> string \<times> error option" where
  "CreateCompositeKey objectType attributes =
     (case ValidateCompositeKeyAttribute objectType of
        Some err \<Rightarrow> ('''', Some err)
      | None \<Rightarrow> append_attributes (compositeKeyNamespace @ objectType @ delimiter) attributes)"

text \<open>
  The scanning loop of \<^verbatim>\<open>SplitCompositeKey\<close>, with its three variables: the byte index
  \<open>i\<close>, \<open>componentIndex\<close> and the components collected so far. The slice
  \<^verbatim>\<open>compositeKey[componentIndex:i]\<close> is \<open>take (i - componentIndex) (drop componentIndex \<dots>)\<close>;
  \<open>componentIndex \<le> i\<close> holds throughout, so the slice never panics.
\<close>

function scan_components :: "string \<Rightarrow> nat \<Rightarrow> nat \<Rightarrow> string list \<Rightarrow> string list" where
  "scan_components compositeKey i componentIndex components =
     (if i < length compositeKey then
        (if of_char (compositeKey ! i) = minUnicodeRuneValue
         then scan_components compositeKey (i + 1) (i + 1)
                (components @ [take (i - componentIndex) (drop componentIndex compositeKey)])
         else scan_components compositeKey (i + 1) componentIndex components)
      else components)"
  by pat_completeness auto
termination
  by (relation "measure (\<lambda>(k, i, c, cs). length k - i)") auto

definition SplitCompositeKey :: "string \<Rightarrow> string \<times> string list \<times> error option" where
  "SplitCompositeKey compositeKey =
     (let components = scan_components compositeKey 1 1 [] in
      if length components < numComponentsInKey + 1
      then ('''', [], Some (NotEnoughComponents compositeKey (length components) components))
      else (components ! 0, drop 1 components, None))"

section \<open>The key catalog\<close>

definition CreateTokenKey :: "string \<Rightarrow> 64 word \<Rightarrow> string \<times> error option" where
  "CreateTokenKey txID index = CreateCompositeKey TokenKeyPrefix [txID, FormatUint index]"

definition CreateSNKey :: "string \<Rightarrow> string \<times> error option" where
  "CreateSNKey sn = CreateCompositeKey TokenKeyPrefix [SerialNumber, sn]"

definition CreateSetupKey :: "string \<times> error option" where
  "CreateSetupKey = CreateCompositeKey TokenKeyPrefix [TokenSetupKeyPrefix]"

definition CreateSetupHashKey :: "string \<times> error option" where
  "CreateSetupHashKey = CreateCompositeKey TokenKeyPrefix [TokenSetupHashKeyPrefix]"

definition CreateTokenRequestKey :: "string \<Rightarrow> string \<times> error option" where
  "CreateTokenRequestKey txID = CreateCompositeKey TokenKeyPrefix [TokenRequestKeyPrefix, txID]"

definition CreateIssueActionMetadataKey :: "string \<Rightarrow> string \<times> error option" where
  "CreateIssueActionMetadataKey hash = CreateCompositeKey TokenKeyPrefix [IssueActionMetadata, hash]"

definition CreateTransferActionMetadataKey :: "string \<Rightarrow> string \<times> error option" where
  "CreateTransferActionMetadataKey subKey =
     CreateCompositeKey TokenKeyPrefix [TransferActionMetadata, subKey]"

definition GetTransferMetadataSubKey :: "string \<Rightarrow> string \<times> error option" where
  "GetTransferMetadataSubKey k =
     (case SplitCompositeKey k of (prefix, components, err) \<Rightarrow>
        if err \<noteq> None then ('''', Wrapf err (\<lambda>e. FailedToSplit e k))
        else if length components \<noteq> 2
          then ('''', Wrapf err (\<lambda>e. WrongComponentCount e k (length components)))
        else if prefix \<noteq> TokenKeyPrefix then ('''', Some (NoTokenKeyPrefix k))
        else if components ! 0 \<noteq> TransferActionMetadata
          then ('''', Some (NoTransferMetadataPrefix k))
        else (components ! 1, None))"

subsection \<open>Vocabulary of the specification\<close>

text \<open>
  An attribute the specification allows: valid UTF-8 whose runes are neither U+0000 nor
  U+10FFFF.
\<close>

definition allowed_attribute :: "string \<Rightarrow> bool" where
  "allowed_attribute s \<longleftrightarrow>
     ValidString s \<and> minUnicodeRuneValue \<notin> set (runes s)
       \<and> MaxUnicodeRuneValue \<notin> set (runes s)"

text \<open>
  The framing the specification states for a key:
  \<^verbatim>\<open><namespace><objectType><delim>(<attr><delim>)*\<close>, namespace and delimiter being the
  byte \<^verbatim>\<open>0x00\<close>.
\<close>

definition framed :: "string \<Rightarrow> string list \<Rightarrow> string" where
  "framed objectType attrs =
     CHR 0x00 # objectType @ CHR 0x00 # concat (map (\<lambda>a. a @ [CHR 0x00]) attrs)"

definition forbidden_rune :: "nat \<times> nat \<Rightarrow> bool" where
  "forbidden_rune ir \<longleftrightarrow> snd ir = minUnicodeRuneValue \<or> snd ir = MaxUnicodeRuneValue"

text \<open>The codepoint and the position that an error names, if it names any.\<close>

fun named_codepoint :: "error \<Rightarrow> (nat \<times> nat) option" where
  "named_codepoint (ForbiddenRune r i) = Some (r, i)"
| "named_codepoint (NotEnoughComponents k n cs) = None"
| "named_codepoint (NotValidUTF8 s) = None"
| "named_codepoint (FailedToSplit e k) = None"
| "named_codepoint (WrongComponentCount e k n) = None"
| "named_codepoint (NoTokenKeyPrefix k) = None"
| "named_codepoint (NoTransferMetadataPrefix k) = None"

section \<open>The balance view\<close>

text \<open>
  \<^verbatim>\<open>BalanceView.Call\<close> of \<^verbatim>\<open>views/balance.go\<close>. Its collaborators live outside the
  file and are parameters of the model: the wallet lookup of the management service, the
  wallet's \<^verbatim>\<open>ListUnspentTokens\<close> (by token type), the precision of the public parameters, and
  the four quantity operations of package \<^verbatim>\<open>token/token\<close> that the view calls. The quantity
  type is whatever those operations work on (\<^typ>\<open>'q\<close>), and \<^typ>\<open>'e\<close> is the type of the
  errors that the collaborators return. Tracing spans have no effect on the result.
\<close>

record BalanceQuery =
  Wallet :: string
  Type :: string

record Balance =
  Type :: string
  Quantity :: string

record UnspentToken =
  Quantity :: string

record ('q, 'e) collaborators =
  OwnerWallet :: "string \<Rightarrow> (string \<Rightarrow> 'e + UnspentToken list) option"
  Precision :: nat
  NewZeroQuantity :: "nat \<Rightarrow> 'q"
  ToQuantity :: "string \<Rightarrow> nat \<Rightarrow> 'e + 'q"
  Add :: "'q \<Rightarrow> 'q \<Rightarrow> 'q"
  Decimal :: "'q \<Rightarrow> string"

datatype 'e call_error = WalletNotFound string | Collaborator 'e

text \<open>The summation loop over \<^verbatim>\<open>unspentTokens.Tokens\<close>; \<open>sum_q\<close> is the running total \<^verbatim>\<open>sum\<close>.\<close>

fun sum_tokens ::
  "('q, 'e) collaborators \<Rightarrow> nat \<Rightarrow> 'q \<Rightarrow> UnspentToken list \<Rightarrow> 'e + 'q" where
  "sum_tokens C precision sum_q [] = Inr sum_q"
| "sum_tokens C precision sum_q (tok # rest) =
     (case ToQuantity C (UnspentToken.Quantity tok) precision of
        Inl err \<Rightarrow> Inl err
      | Inr q \<Rightarrow> sum_tokens C precision (Add C sum_q q) rest)"

definition Call ::
  "('q, 'e) collaborators \<Rightarrow> BalanceQuery \<Rightarrow> Balance option \<times> 'e call_error option" where
  "Call C b =
     (case OwnerWallet C (Wallet b) of
        None \<Rightarrow> (None, Some (WalletNotFound (Wallet b)))
      | Some wallet \<Rightarrow>
          (case wallet (BalanceQuery.Type b) of
             Inl err \<Rightarrow> (None, Some (Collaborator err))
           | Inr unspentTokens \<Rightarrow>
               (let precision = Precision C;
                    sum_q = NewZeroQuantity C precision
                in case sum_tokens C precision sum_q unspentTokens of
                     Inl err \<Rightarrow> (None, Some (Collaborator err))
                   | Inr summed \<Rightarrow>
                       (Some \<lparr>Balance.Type = BalanceQuery.Type b,
                              Balance.Quantity = Decimal C summed\<rparr>, None))))"

subsection \<open>The fixed-precision quantity of the specification\<close>

text \<open>
  Modelled from the spec: the quantity type of package \<^verbatim>\<open>token/token\<close> is missing; the
  specification describes a quantity as a precision \<open>P\<close> (a number of fractional digits)
  with a non-negative exact magnitude scaled by \<open>10\<^sup>-\<^sup>P\<close>. The magnitude is kept
  as the scaled natural number.
\<close>

record FixedQuantity =
  precision :: nat
  magnitude :: nat

text \<open>
  Modelled from the spec: \<^verbatim>\<open>NewZeroQuantity\<close> of package \<^verbatim>\<open>token/token\<close> is missing;
  the specification's \<^verbatim>\<open>Zero(precision)\<close> returns the additive identity at that precision.
\<close>

definition Zero :: "nat \<Rightarrow> FixedQuantity" where
  "Zero p = \<lparr>precision = p, magnitude = 0\<rparr>"

text \<open>
  Modelled from the spec: \<^verbatim>\<open>Decimal\<close> of package \<^verbatim>\<open>token/token\<close> is missing; the
  specification's \<^verbatim>\<open>ToDecimalString(q)\<close> renders \<open>q\<close> with exactly \<open>precision\<close>
  fractional digits: the integer part, then, when there are fractional digits, a point and
  the fraction padded with zeros on the left to \<open>precision\<close> digits.
\<close>

definition ToDecimalString :: "FixedQuantity \<Rightarrow> string" where
  "ToDecimalString q =
     (let scale = 10 ^ precision q;
          whole = decimal (magnitude q div scale);
          frac = decimal (magnitude q mod scale)
      in if precision q = 0 then whole
         else whole @ ''.'' @ replicate (precision q - length frac) (CHR ''0'') @ frac)"

section \<open>Facts about the helpers\<close>

declare ValidString.simps [simp del] range_check.simps [simp del] range_string.simps [simp del]
  decimal.simps [simp del] scan_components.simps [simp del]

lemma delimiter_eq: "delimiter = [CHR 0x00]"
  by (simp add: delimiter_def minUnicodeRuneValue_def char_of_def)

lemma of_char_zero_iff: "of_char c = (0::nat) \<longleftrightarrow> c = CHR 0x00"
proof
  assume "of_char c = (0::nat)"
  then have "of_char c = (of_char (CHR 0x00) :: nat)" by simp
  then show "c = CHR 0x00" by (simp only: of_char_eq_iff)
qed simp

lemma decode_ascii:
  "of_char c < (0x80::nat) \<Longrightarrow> DecodeRuneInString (c # cs) = (of_char c, 1)"
  by (simp add: DecodeRuneInString_def byte_at_def lead_size_def)

lemma forbidden_rune_pair [simp]:
  "forbidden_rune (j, r) \<longleftrightarrow> r = minUnicodeRuneValue \<or> r = MaxUnicodeRuneValue"
  by (simp add: forbidden_rune_def)

text \<open>The loop of the validation returns the first forbidden rune that \<open>range\<close> enumerates.\<close>

lemma range_check_find:
  "range_check i s =
     map_option (\<lambda>(j, r). ForbiddenRune r j) (find forbidden_rune (range_string i s))"
proof (induction i s rule: range_check.induct)
  case (1 index s)
  show ?case
  proof (cases "s = []")
    case True
    then show ?thesis by (simp add: range_check.simps range_string.simps)
  next
    case False
    obtain r w where d: "DecodeRuneInString s = (r, w)" by (cases "DecodeRuneInString s")
    show ?thesis
    proof (cases "r = minUnicodeRuneValue \<or> r = MaxUnicodeRuneValue")
      case True
      with False d show ?thesis
        by (subst range_check.simps, subst range_string.simps) auto
    next
      case nf: False
      with False d "1.IH" [of "(r, w)" r w] show ?thesis
        by (subst range_check.simps, subst range_string.simps) auto
    qed
  qed
qed

lemma range_string_shift:
  "map snd (range_string i s) = map snd (range_string j s)"
proof (induction i s arbitrary: j rule: range_string.induct)
  case (1 index s)
  show ?case
  proof (cases "s = []")
    case True
    then show ?thesis by (simp add: range_string.simps)
  next
    case False
    obtain r w where d: "DecodeRuneInString s = (r, w)" by (cases "DecodeRuneInString s")
    from "1.IH" [OF False d [symmetric] refl, of "j + w"] False d show ?thesis
      by (subst (1 2) range_string.simps) simp
  qed
qed

lemma runes_Cons:
  "s \<noteq> [] \<Longrightarrow> DecodeRuneInString s = (r, w) \<Longrightarrow> runes s = r # runes (drop w s)"
  unfolding runes_def
  by (subst range_string.simps) (simp add: range_string_shift [of w _ 0])

lemma runes_Nil: "runes [] = []"
  by (simp add: runes_def range_string.simps)

lemma find_forbidden_None:
  "find forbidden_rune (range_string i s) = None \<longleftrightarrow>
     minUnicodeRuneValue \<notin> set (runes s) \<and> MaxUnicodeRuneValue \<notin> set (runes s)"
proof -
  have "find forbidden_rune (range_string i s) = None \<longleftrightarrow>
        (\<forall>r \<in> set (map snd (range_string i s)). r \<noteq> minUnicodeRuneValue \<and> r \<noteq> MaxUnicodeRuneValue)"
    by (auto simp: find_None_iff)
  also have "map snd (range_string i s) = runes s"
    unfolding runes_def by (rule range_string_shift)
  finally show ?thesis by auto
qed

lemma Validate_iff_allowed:
  "ValidateCompositeKeyAttribute s = None \<longleftrightarrow> allowed_attribute s"
  by (simp add: ValidateCompositeKeyAttribute_def allowed_attribute_def range_check_find
      find_forbidden_None)

text \<open>A well-formed rune other than U+0000 has no zero byte in its encoding.\<close>

lemma decode_take_nonzero:
  assumes "s \<noteq> []" and "DecodeRuneInString s = (r, w)"
    and "\<not> (r = RuneError \<and> w = 1)" and "r \<noteq> 0"
  shows "CHR 0x00 \<notin> set (take w s)"
proof
  assume mem: "CHR 0x00 \<in> set (take w s)"
  from assms(1) have l1: "1 \<le> length s" by (cases s) auto
  have le: "w \<le> length s" and s4: "w \<le> 4"
    using assms(2) l1
    by (auto simp: DecodeRuneInString_def Let_def lead_size_def split: if_splits)
  from mem le obtain i where i: "i < w" "s ! i = CHR 0x00"
    by (auto simp: in_set_conv_nth)
  then have b: "byte_at s i = 0" by (simp add: byte_at_def)
  from i s4 have "i = 0 \<or> i = 1 \<or> i = 2 \<or> i = 3" by arith
  with assms b i(1) show False
    by (auto simp: DecodeRuneInString_def Let_def lead_size_def accept_lo_def RuneError_def
        split: if_splits)
qed

lemma valid_no_zero_byte:
  "ValidString s \<Longrightarrow> minUnicodeRuneValue \<notin> set (runes s) \<Longrightarrow> CHR 0x00 \<notin> set s"
proof (induction s rule: ValidString.induct)
  case (1 s)
  show ?case
  proof (cases "s = []")
    case True
    then show ?thesis by simp
  next
    case False
    obtain r w where d: "DecodeRuneInString s = (r, w)" by (cases "DecodeRuneInString s")
    from "1.prems"(1) False d
    have ok: "\<not> (r = RuneError \<and> w = 1)" and v: "ValidString (drop w s)"
      by (subst (asm) ValidString.simps, simp split: if_splits)+
    from "1.prems"(2) have r0: "r \<noteq> 0"
      and rest: "minUnicodeRuneValue \<notin> set (runes (drop w s))"
      by (simp_all add: runes_Cons [OF False d] minUnicodeRuneValue_def)
    from "1.IH" [OF False d [symmetric] refl _ v rest] ok
    have "CHR 0x00 \<notin> set (drop w s)" by blast
    moreover have "CHR 0x00 \<notin> set (take w s)"
      using decode_take_nonzero [OF False d ok r0] .
    ultimately show ?thesis
      by (metis Un_iff append_take_drop_id set_append)
  qed
qed

lemma allowed_no_zero_byte: "allowed_attribute s \<Longrightarrow> CHR 0x00 \<notin> set s"
  by (simp add: allowed_attribute_def valid_no_zero_byte)

text \<open>Non-zero ASCII bytes form an allowed attribute.\<close>

lemma ascii_allowed:
  "\<forall>c \<in> set s. 0 < (of_char c :: nat) \<and> (of_char c :: nat) < 0x80 \<Longrightarrow> allowed_attribute s"
proof (induction s)
  case Nil
  show ?case
    by (simp add: allowed_attribute_def runes_Nil ValidString.simps)
next
  case (Cons c cs)
  then have c: "0 < (of_char c :: nat)" "(of_char c :: nat) < 0x80"
    and ih: "allowed_attribute cs" by simp_all
  have d: "DecodeRuneInString (c # cs) = (of_char c, 1)" using c(2) by (rule decode_ascii)
  have v: "ValidString (c # cs) = ValidString cs"
    using c(2) by (subst ValidString.simps) (simp add: d RuneError_def)
  have r: "runes (c # cs) = of_char c # runes cs"
    using runes_Cons [OF _ d] by simp
  from c ih show ?case
    by (simp add: allowed_attribute_def v r minUnicodeRuneValue_def MaxUnicodeRuneValue_def)
qed

subsection \<open>Decimal rendering\<close>

lemma digit_value: "d < 10 \<Longrightarrow> (of_char (digits ! d) :: nat) = 48 + d"
proof -
  assume "d < 10"
  then have "d = 0 \<or> d = 1 \<or> d = 2 \<or> d = 3 \<or> d = 4 \<or> d = 5 \<or> d = 6 \<or> d = 7
      \<or> d = 8 \<or> d = 9" by arith
  then show ?thesis
    by (elim disjE) (simp_all add: digits_def)
qed

lemma decimal_digits: "c \<in> set (decimal n) \<Longrightarrow> c \<in> set digits"
proof (induction n arbitrary: c rule: decimal.induct)
  case (1 n)
  have dig: "\<And>d::nat. d < 10 \<Longrightarrow> digits ! d \<in> set digits"
    by (rule nth_mem) (simp add: digits_def)
  show ?case
  proof (cases "n < 10")
    case True
    with "1.prems" dig [of n] show ?thesis by (subst (asm) decimal.simps) simp
  next
    case False
    with "1.prems" have "c \<in> set (decimal (n div 10)) \<or> c = digits ! (n mod 10)"
      by (subst (asm) decimal.simps) auto
    with "1.IH" [OF False] dig [of "n mod 10"] show ?thesis by auto
  qed
qed

lemma digits_value_snoc: "digits_value (s @ [c]) = 10 * digits_value s + (of_char c - 48)"
  by (simp add: digits_value_def)

lemma digits_value_decimal: "digits_value (decimal n) = n"
proof (induction n rule: decimal.induct)
  case (1 n)
  show ?case
  proof (cases "n < 10")
    case True
    then show ?thesis by (subst decimal.simps) (simp add: digits_value_def digit_value)
  next
    case False
    have "digits_value (decimal n) =
          10 * digits_value (decimal (n div 10)) + (of_char (digits ! (n mod 10)) - 48)"
      using False by (subst decimal.simps) (simp add: digits_value_snoc)
    also have "(of_char (digits ! (n mod 10)) :: nat) = 48 + n mod 10"
      by (rule digit_value) simp
    finally show ?thesis using "1.IH" [OF False] by simp
  qed
qed

lemma decimal_allowed: "allowed_attribute (decimal n)"
proof (rule ascii_allowed, rule ballI)
  fix c assume "c \<in> set (decimal n)"
  then have "c \<in> set digits" by (rule decimal_digits)
  then obtain d where "d < length digits" "c = digits ! d"
    by (metis in_set_conv_nth)
  then have "d < 10" "c = digits ! d" by (simp_all add: digits_def)
  then show "0 < (of_char c :: nat) \<and> (of_char c :: nat) < 0x80"
    by (simp add: digit_value)
qed

text \<open>The rendering is canonical: never empty, and without a leading zero.\<close>

lemma decimal_nonempty: "decimal n \<noteq> []"
  by (subst decimal.simps) simp

lemma decimal_length_one: "n < 10 \<Longrightarrow> length (decimal n) = 1"
  by (subst decimal.simps) simp

lemma decimal_no_leading_zero: "0 < n \<Longrightarrow> hd (decimal n) \<noteq> CHR ''0''"
proof (induction n rule: decimal.induct)
  case (1 n)
  show ?case
  proof (cases "n < 10")
    case True
    then have "(of_char (digits ! n) :: nat) = 48 + n" by (rule digit_value)
    with "1.prems" have "(of_char (digits ! n) :: nat) \<noteq> of_char (CHR ''0'')" by simp
    then have "digits ! n \<noteq> CHR ''0''" by (simp only: of_char_eq_iff not_False_eq_True)
    with True show ?thesis by (subst decimal.simps) simp
  next
    case False
    then have pos: "0 < n div 10" by simp
    from False have "hd (decimal n) = hd (decimal (n div 10))"
      by (subst decimal.simps) (simp add: decimal_nonempty)
    with "1.IH" [OF False pos] show ?thesis by simp
  qed
qed

lemma decimal_canonical: "1 < length (decimal n) \<Longrightarrow> hd (decimal n) \<noteq> CHR ''0''"
proof -
  assume l: "1 < length (decimal n)"
  have "\<not> n < 10" using l decimal_length_one [of n] by auto
  then have "0 < n" by simp
  then show ?thesis by (rule decimal_no_leading_zero)
qed

subsection \<open>The scanning loop on framed keys\<close>

lemma scan_skip:
  assumes "CHR 0x00 \<notin> set a" and "length pre = ci"
  shows "ci \<le> i \<Longrightarrow> i \<le> ci + length a \<Longrightarrow>
     scan_components (pre @ a @ CHR 0x00 # rest) i ci comps =
     scan_components (pre @ a @ CHR 0x00 # rest) (ci + length a + 1) (ci + length a + 1)
       (comps @ [a])"
proof (induction "ci + length a - i" arbitrary: i)
  case 0
  then have i: "i = ci + length a" by simp
  have nth: "(pre @ a @ CHR 0x00 # rest) ! i = CHR 0x00"
    using assms(2) i by (simp add: nth_append)
  have tk: "take (i - ci) (drop ci (pre @ a @ CHR 0x00 # rest)) = a"
    using assms(2) i by simp
  have lt: "i < length (pre @ a @ CHR 0x00 # rest)" using assms(2) i by simp
  show ?case
    using lt nth tk
    by (subst scan_components.simps) (simp add: of_char_zero_iff minUnicodeRuneValue_def i)
next
  case (Suc n)
  then have lt: "i < ci + length a" by simp
  with Suc.prems have rel: "i - ci < length a" "\<not> i < ci" by arith+
  with assms(2) have nth: "(pre @ a @ CHR 0x00 # rest) ! i = a ! (i - ci)"
    by (simp add: nth_append)
  from rel have "a ! (i - ci) \<in> set a" by simp
  with assms(1) nth have nz: "(pre @ a @ CHR 0x00 # rest) ! i \<noteq> CHR 0x00" by metis
  have ltl: "i < length (pre @ a @ CHR 0x00 # rest)" using assms(2) lt by simp
  have "scan_components (pre @ a @ CHR 0x00 # rest) i ci comps =
        scan_components (pre @ a @ CHR 0x00 # rest) (i + 1) ci comps"
    using ltl nz
    by (subst scan_components.simps) (simp add: of_char_zero_iff minUnicodeRuneValue_def)
  also have "\<dots> = scan_components (pre @ a @ CHR 0x00 # rest) (ci + length a + 1)
                     (ci + length a + 1) (comps @ [a])"
    using Suc.hyps(1) [of "i + 1"] Suc.hyps(2) Suc.prems lt by simp
  finally show ?case .
qed

lemma scan_framed:
  "\<forall>a \<in> set as. CHR 0x00 \<notin> set a \<Longrightarrow>
   scan_components (pre @ concat (map (\<lambda>a. a @ [CHR 0x00]) as)) (length pre) (length pre) comps
     = comps @ as"
proof (induction as arbitrary: pre comps)
  case Nil
  show ?case by (subst scan_components.simps) simp
next
  case (Cons a as)
  have "scan_components (pre @ a @ CHR 0x00 # concat (map (\<lambda>a. a @ [CHR 0x00]) as))
          (length pre) (length pre) comps =
        scan_components (pre @ a @ CHR 0x00 # concat (map (\<lambda>a. a @ [CHR 0x00]) as))
          (length pre + length a + 1) (length pre + length a + 1) (comps @ [a])"
    using Cons.prems by (intro scan_skip) simp_all
  also have "\<dots> = (comps @ [a]) @ as"
    using Cons.IH [of "pre @ a @ [CHR 0x00]" "comps @ [a]"] Cons.prems by simp
  finally show ?case by simp
qed

text \<open>The loop collects one component for each zero byte from offset one on.\<close>

lemma scan_count:
  "length (scan_components k i componentIndex comps) =
     length comps + length (filter (\<lambda>c. c = CHR 0x00) (drop i k))"
proof (induction k i componentIndex comps rule: scan_components.induct)
  case (1 k i ci comps)
  show ?case
  proof (cases "i < length k")
    case False
    then show ?thesis by (subst scan_components.simps) simp
  next
    case True
    then have d: "drop i k = k ! i # drop (i + 1) k" by (simp add: Cons_nth_drop_Suc)
    show ?thesis
    proof (cases "k ! i = CHR 0x00")
      case z: True
      with True "1.IH"(1) show ?thesis
        by (subst scan_components.simps) (simp add: d minUnicodeRuneValue_def)
    next
      case nz: False
      with True "1.IH"(2) show ?thesis
        by (subst scan_components.simps) (simp add: d minUnicodeRuneValue_def of_char_zero_iff)
    qed
  qed
qed

subsection \<open>Building and splitting\<close>

lemma allowed_Validate: "allowed_attribute s \<Longrightarrow> ValidateCompositeKeyAttribute s = None"
  by (simp add: Validate_iff_allowed)

lemma append_attributes_ok:
  "\<forall>a \<in> set attrs. allowed_attribute a \<Longrightarrow>
   append_attributes ck attrs = (ck @ concat (map (\<lambda>a. a @ [CHR 0x00]) attrs), None)"
  by (induction attrs arbitrary: ck) (simp_all add: allowed_Validate delimiter_eq)

lemma append_attributes_first_bad:
  "\<forall>a \<in> set good. allowed_attribute a \<Longrightarrow>
   append_attributes ck (good @ bad # rest) = ('''', ValidateCompositeKeyAttribute bad)
   \<or> allowed_attribute bad"
proof (induction good arbitrary: ck)
  case Nil
  show ?case
    by (cases "ValidateCompositeKeyAttribute bad") (simp_all add: Validate_iff_allowed)
next
  case (Cons a good)
  then show ?case by (simp add: allowed_Validate)
qed

lemma CreateCompositeKey_ok:
  "allowed_attribute objectType \<Longrightarrow> \<forall>a \<in> set attrs. allowed_attribute a \<Longrightarrow>
   CreateCompositeKey objectType attrs = (framed objectType attrs, None)"
  by (simp add: CreateCompositeKey_def allowed_Validate append_attributes_ok
      compositeKeyNamespace_def delimiter_eq framed_def)

lemma scan_built:
  assumes "allowed_attribute objectType" and "\<forall>a \<in> set attrs. allowed_attribute a"
  shows "scan_components (framed objectType attrs) 1 1 [] = objectType # attrs"
proof -
  have "\<forall>a \<in> set (objectType # attrs). CHR 0x00 \<notin> set a"
    using assms by (simp add: allowed_no_zero_byte)
  from scan_framed [OF this, of "[CHR 0x00]" "[]"] show ?thesis
    by (simp add: framed_def)
qed

lemma Split_built:
  assumes "allowed_attribute objectType" and "\<forall>a \<in> set attrs. allowed_attribute a"
  shows "SplitCompositeKey (framed objectType attrs) =
     (if length attrs < 2
      then ('''', [], Some (NotEnoughComponents (framed objectType attrs) (Suc (length attrs))
              (objectType # attrs)))
      else (objectType, attrs, None))"
  using scan_built [OF assms] by (simp add: SplitCompositeKey_def numComponentsInKey_def)

lemma Validate_error:
  assumes "\<not> allowed_attribute s"
  shows "\<exists>e. ValidateCompositeKeyAttribute s = Some e \<and>
     (if ValidString s
      then \<exists>i r. find forbidden_rune (range_string 0 s) = Some (i, r) \<and> e = ForbiddenRune r i
      else e = NotValidUTF8 s)"
proof (cases "ValidString s")
  case False
  then show ?thesis by (simp add: ValidateCompositeKeyAttribute_def)
next
  case True
  with assms have "find forbidden_rune (range_string 0 s) \<noteq> None"
    by (simp add: find_forbidden_None allowed_attribute_def)
  then obtain i r where "find forbidden_rune (range_string 0 s) = Some (i, r)" by auto
  with True show ?thesis
    by (simp add: ValidateCompositeKeyAttribute_def range_check_find)
qed

lemma ztoken_allowed: "allowed_attribute TokenKeyPrefix"
  by (rule ascii_allowed) (simp add: TokenKeyPrefix_def)

lemma tam_allowed: "allowed_attribute TransferActionMetadata"
  by (rule ascii_allowed) (simp add: TransferActionMetadata_def)

subsection \<open>The decoder on multi-byte input\<close>

lemma decode_max_rune:
  "DecodeRuneInString (CHR 0xF4 # CHR 0x8F # CHR 0xBF # CHR 0xBF # rest) = (0x10FFFF, 4)"
  by (simp add: DecodeRuneInString_def byte_at_def lead_size_def accept_lo_def accept_hi_def)

lemma decode_two_bytes:
  "DecodeRuneInString [CHR 0xC3, CHR 0xA9] = (0xE9, 2)"
  by (simp add: DecodeRuneInString_def byte_at_def lead_size_def accept_lo_def accept_hi_def)

lemma range_string_a_max:
  "range_string 0 [CHR ''a'', CHR 0xF4, CHR 0x8F, CHR 0xBF, CHR 0xBF] = [(0, 0x61), (1, 0x10FFFF)]"
  by (simp add: range_string.simps decode_ascii decode_max_rune)

lemma valid_a_max: "ValidString [CHR ''a'', CHR 0xF4, CHR 0x8F, CHR 0xBF, CHR 0xBF]"
  by (simp add: ValidString.simps decode_ascii decode_max_rune RuneError_def)

lemma not_allowed_a_max: "\<not> allowed_attribute [CHR ''a'', CHR 0xF4, CHR 0x8F, CHR 0xBF, CHR 0xBF]"
  by (simp add: allowed_attribute_def runes_def range_string_a_max MaxUnicodeRuneValue_def)

lemma surrogate_invalid: "\<not> ValidString [CHR 0xED, CHR 0xA0, CHR 0x80]"
  by (simp add: ValidString.simps DecodeRuneInString_def byte_at_def lead_size_def accept_lo_def accept_hi_def)

subsection \<open>The summation loop\<close>

lemma sum_tokens_first_error:
  "\<forall>t \<in> set good. \<exists>q. ToQuantity C (UnspentToken.Quantity t) p = Inr q \<Longrightarrow>
   ToQuantity C (UnspentToken.Quantity bad) p = Inl e \<Longrightarrow>
   sum_tokens C p s (good @ bad # rest) = Inl e"
proof (induction good arbitrary: s)
  case Nil
  then show ?case by simp
next
  case (Cons t good)
  from Cons.prems(1) obtain q where q: "ToQuantity C (UnspentToken.Quantity t) p = Inr q"
    by auto
  from Cons.prems(1) have "\<forall>t \<in> set good. \<exists>q. ToQuantity C (UnspentToken.Quantity t) p = Inr q"
    by simp
  from Cons.IH [OF this Cons.prems(2)] q show ?case by simp
qed

lemma decimal_0: "decimal 0 = ''0''"
  by (simp add: decimal.simps digits_def)

lemma ToDecimalString_Zero:
  "ToDecimalString (Zero p) = (if p = 0 then ''0'' else ''0.'' @ replicate p (CHR ''0''))"
proof (cases p)
  case 0
  then show ?thesis by (simp add: ToDecimalString_def Zero_def decimal_0)
next
  case (Suc n)
  then show ?thesis
    by (simp add: ToDecimalString_def Zero_def decimal_0 replicate_append_same)
qed


lemma FormatUint_allowed: "allowed_attribute (FormatUint index)"
  by (simp add: FormatUint_def decimal_allowed)

text \<open>
  What \<open>GetTransferMetadataSubKey\<close> returns on a built key, by number of attributes: the
  wrapped error of the split below two, no error at all above two, and the prefix and
  marker checks at exactly two.
\<close>

lemma GetTransferMetadataSubKey_built:
  assumes "allowed_attribute objectType" and "\<forall>a \<in> set attrs. allowed_attribute a"
  shows "GetTransferMetadataSubKey (framed objectType attrs) =
     (if length attrs < 2
      then ('''', Some (FailedToSplit
              (NotEnoughComponents (framed objectType attrs) (Suc (length attrs))
                 (objectType # attrs))
              (framed objectType attrs)))
      else if length attrs \<noteq> 2 then ('''', None)
      else if objectType \<noteq> ''ztoken'' then ('''', Some (NoTokenKeyPrefix (framed objectType attrs)))
      else if attrs ! 0 \<noteq> ''tam''
        then ('''', Some (NoTransferMetadataPrefix (framed objectType attrs)))
      else (attrs ! 1, None))"
  by (simp add: GetTransferMetadataSubKey_def Split_built [OF assms] Wrapf_def
      TokenKeyPrefix_def TransferActionMetadata_def)

section \<open>Claims about the key codec\<close>

text \<open>
  Claim C1, as amended. For every allowed object type and every list of at least two
  allowed attributes, \<open>CreateCompositeKey\<close> succeeds and \<open>SplitCompositeKey\<close> applied to
  the key it returns succeeds with exactly the object type and the attributes.
\<close>

theorem roundtrip_two_or_more:
  assumes "allowed_attribute objectType" and "\<forall>a \<in> set attrs. allowed_attribute a"
    and "2 \<le> length attrs"
  shows "snd (CreateCompositeKey objectType attrs) = None \<and>
         SplitCompositeKey (fst (CreateCompositeKey objectType attrs)) = (objectType, attrs, None)"
  using assms by (simp add: CreateCompositeKey_ok Split_built)

theorem roundtrip_two_or_more_witness:
  "allowed_attribute ''ztoken'' \<and> allowed_attribute ''tx1'' \<and> allowed_attribute ''3''
   \<and> allowed_attribute '''' \<and> 2 \<le> length [''tx1'', ''3'', '''']
   \<and> SplitCompositeKey (fst (CreateCompositeKey ''ztoken'' [''tx1'', ''3'', '''']))
       = (''ztoken'', [''tx1'', ''3'', ''''], None)"
proof -
  have a: "allowed_attribute ''ztoken''" by (rule ascii_allowed) simp
  have b: "\<forall>a \<in> set [''tx1'', ''3'', '''']. allowed_attribute a"
    by (auto intro!: ascii_allowed)
  have c: "2 \<le> length [''tx1'', ''3'', '''']" by simp
  from roundtrip_two_or_more [OF a b c] a b c show ?thesis by simp
qed

text \<open>
  The round trip as claim C1 states it, for attribute lists of length one and zero, fails:
  the key built from \<open>ztoken\<close> and the single attribute \<open>setup\<close> does not split back, and
  neither does the key built from no attribute.
\<close>

theorem roundtrip_short_counterexample:
  "allowed_attribute ''ztoken'' \<and> allowed_attribute ''setup''
   \<and> SplitCompositeKey (fst (CreateCompositeKey ''ztoken'' [''setup'']))
       \<noteq> (''ztoken'', [''setup''], None)
   \<and> SplitCompositeKey (fst (CreateCompositeKey ''ztoken'' [])) \<noteq> (''ztoken'', [], None)"
proof -
  have a: "allowed_attribute ''ztoken''" by (rule ascii_allowed) simp
  have b: "allowed_attribute ''setup''" by (rule ascii_allowed) simp
  from a b show ?thesis by (simp add: CreateCompositeKey_ok Split_built)
qed

text \<open>
  Claim C2, as amended. \<open>SplitCompositeKey\<close> fails exactly when it finds fewer than three
  components, a component being found at each zero byte from offset one on; the error then
  carries the key and the number of components found. The minimum is the same for every
  key, so a key built from fewer than two attributes is rejected.
\<close>

theorem SplitCompositeKey_fixed_minimum:
  "(snd (snd (SplitCompositeKey k)) \<noteq> None
      \<longleftrightarrow> length (filter (\<lambda>c. c = CHR 0x00) (drop 1 k)) < 3)
   \<and> (length (filter (\<lambda>c. c = CHR 0x00) (drop 1 k)) < 3 \<longrightarrow>
        (\<exists>components. length components = length (filter (\<lambda>c. c = CHR 0x00) (drop 1 k))
           \<and> SplitCompositeKey k
               = ('''', [], Some (NotEnoughComponents k (length components) components))))
   \<and> (allowed_attribute objectType \<and> (\<forall>a \<in> set attrs. allowed_attribute a)
         \<and> length attrs < 2 \<longrightarrow>
        SplitCompositeKey (fst (CreateCompositeKey objectType attrs))
          = ('''', [], Some (NotEnoughComponents (fst (CreateCompositeKey objectType attrs))
                (1 + length attrs) (objectType # attrs))))"
proof -
  have n: "length (scan_components k 1 1 []) = length (filter (\<lambda>c. c = CHR 0x00) (drop 1 k))"
    by (simp add: scan_count)
  have 1: "snd (snd (SplitCompositeKey k)) \<noteq> None
      \<longleftrightarrow> length (filter (\<lambda>c. c = CHR 0x00) (drop 1 k)) < 3"
    unfolding n [symmetric] by (simp add: SplitCompositeKey_def Let_def numComponentsInKey_def)
  have 2: "length (filter (\<lambda>c. c = CHR 0x00) (drop 1 k)) < 3 \<longrightarrow>
        (\<exists>components. length components = length (filter (\<lambda>c. c = CHR 0x00) (drop 1 k))
           \<and> SplitCompositeKey k
               = ('''', [], Some (NotEnoughComponents k (length components) components)))"
    unfolding n [symmetric] by (simp add: SplitCompositeKey_def Let_def numComponentsInKey_def)
  have 3: "allowed_attribute objectType \<and> (\<forall>a \<in> set attrs. allowed_attribute a)
         \<and> length attrs < 2 \<longrightarrow>
        SplitCompositeKey (fst (CreateCompositeKey objectType attrs))
          = ('''', [], Some (NotEnoughComponents (fst (CreateCompositeKey objectType attrs))
                (1 + length attrs) (objectType # attrs)))"
    by (simp add: CreateCompositeKey_ok Split_built)
  from 1 2 3 show ?thesis by blast
qed

theorem SplitCompositeKey_fixed_minimum_witness:
  "allowed_attribute ''ztoken'' \<and> allowed_attribute ''sn'' \<and> length [''sn''] < 2
   \<and> length (filter (\<lambda>c. c = CHR 0x00)
        (drop 1 (CHR 0x00 # ''ztoken'' @ CHR 0x00 # ''sn'' @ [CHR 0x00]))) < 3
   \<and> snd (snd (SplitCompositeKey (CHR 0x00 # ''ztoken'' @ CHR 0x00 # ''sn'' @ [CHR 0x00])))
       \<noteq> None
   \<and> SplitCompositeKey (fst (CreateCompositeKey ''ztoken'' [''sn'']))
       = ('''', [], Some (NotEnoughComponents (fst (CreateCompositeKey ''ztoken'' [''sn'']))
            (1 + length [''sn'']) [''ztoken'', ''sn'']))"
proof -
  have a: "allowed_attribute ''ztoken''" by (rule ascii_allowed) simp
  have b: "\<forall>a \<in> set [''sn'']. allowed_attribute a" by (auto intro!: ascii_allowed)
  have c: "length (filter (\<lambda>c. c = CHR 0x00)
             (drop 1 (CHR 0x00 # ''ztoken'' @ CHR 0x00 # ''sn'' @ [CHR 0x00]))) < 3" by simp
  from SplitCompositeKey_fixed_minimum
         [of "CHR 0x00 # ''ztoken'' @ CHR 0x00 # ''sn'' @ [CHR 0x00]" "''ztoken''" "[''sn'']"]
       a b c
  show ?thesis by simp
qed

text \<open>
  Claim C2 as stated says that the key returned by \<open>CreateSetupKey\<close> is not rejected when
  split. The key is built without error, and splitting it returns an error.
\<close>

theorem setup_key_rejected_counterexample:
  "snd CreateSetupKey = None \<and> snd (snd (SplitCompositeKey (fst CreateSetupKey))) \<noteq> None"
proof -
  have a: "allowed_attribute ''ztoken''" by (rule ascii_allowed) simp
  have b: "allowed_attribute ''setup''" by (rule ascii_allowed) simp
  from a b show ?thesis
    by (simp add: CreateSetupKey_def TokenKeyPrefix_def TokenSetupKeyPrefix_def
        CreateCompositeKey_ok Split_built)
qed

text \<open>
  Claim C3 requires a non-nil error for a key with three or more attributes. The key built
  from \<open>ztoken\<close> and the attributes \<open>tam\<close>, \<open>a\<close>, \<open>b\<close> splits without error into three
  attributes; the arity check then wraps the \<^verbatim>\<open>nil\<close> error of the split, and
  \<open>GetTransferMetadataSubKey\<close> returns the empty string together with a \<^verbatim>\<open>nil\<close> error.
\<close>

theorem GetTransferMetadataSubKey_three_attributes:
  "CreateCompositeKey ''ztoken'' [''tam'', ''a'', ''b'']
     = (CHR 0x00 # ''ztoken'' @ CHR 0x00 # ''tam'' @ CHR 0x00 # ''a'' @ CHR 0x00 # ''b''
          @ [CHR 0x00], None)
   \<and> GetTransferMetadataSubKey
        (CHR 0x00 # ''ztoken'' @ CHR 0x00 # ''tam'' @ CHR 0x00 # ''a'' @ CHR 0x00 # ''b''
          @ [CHR 0x00])
     = ('''', None)"
proof -
  have a: "allowed_attribute ''ztoken''" by (rule ascii_allowed) simp
  have b: "\<forall>a \<in> set [''tam'', ''a'', ''b'']. allowed_attribute a"
    by (auto intro!: ascii_allowed)
  have k: "framed ''ztoken'' [''tam'', ''a'', ''b'']
     = CHR 0x00 # ''ztoken'' @ CHR 0x00 # ''tam'' @ CHR 0x00 # ''a'' @ CHR 0x00 # ''b''
         @ [CHR 0x00]"
    by (simp add: framed_def)
  have 1: "CreateCompositeKey ''ztoken'' [''tam'', ''a'', ''b'']
     = (framed ''ztoken'' [''tam'', ''a'', ''b''], None)"
    using a b by (rule CreateCompositeKey_ok)
  have 2: "GetTransferMetadataSubKey (framed ''ztoken'' [''tam'', ''a'', ''b'']) = ('''', None)"
    by (simp add: GetTransferMetadataSubKey_def Split_built [OF a b] Wrapf_def)
  from 1 2 show ?thesis unfolding k by simp
qed

text \<open>
  Claim C5. For every allowed \<open>subKey\<close>, \<open>CreateTransferActionMetadataKey\<close> succeeds and
  \<open>GetTransferMetadataSubKey\<close> applied to its key returns \<open>subKey\<close> with no error.
\<close>

theorem transfer_metadata_roundtrip:
  assumes "allowed_attribute subKey"
  shows "snd (CreateTransferActionMetadataKey subKey) = None \<and>
         GetTransferMetadataSubKey (fst (CreateTransferActionMetadataKey subKey)) = (subKey, None)"
proof -
  have b: "\<forall>a \<in> set [TransferActionMetadata, subKey]. allowed_attribute a"
    using assms tam_allowed by simp
  show ?thesis
    by (simp add: CreateTransferActionMetadataKey_def CreateCompositeKey_ok [OF ztoken_allowed b]
        GetTransferMetadataSubKey_def Split_built [OF ztoken_allowed b])
qed

theorem transfer_metadata_roundtrip_witness:
  "allowed_attribute ''abc'' \<and>
   GetTransferMetadataSubKey (fst (CreateTransferActionMetadataKey ''abc'')) = (''abc'', None)"
proof -
  have a: "allowed_attribute ''abc''" by (rule ascii_allowed) simp
  from transfer_metadata_roundtrip [OF a] a show ?thesis by simp
qed

text \<open>
  Claim C6, as amended. \<open>CreateCompositeKey\<close> fails if and only if the object type or some
  attribute is not allowed. It fails on the first string that is not allowed, in the order
  object type, then attributes, and returns the empty key with the error of that string:
  for a string that is valid UTF-8 the error names the first forbidden rune that the
  \<open>range\<close> loop meets and the byte offset at which it starts; for a string that is not
  valid UTF-8 the error carries the string and names no rune and no position.
\<close>

theorem CreateCompositeKey_failure:
  "(snd (CreateCompositeKey objectType attrs) \<noteq> None
      \<longleftrightarrow> (\<exists>s \<in> set (objectType # attrs). \<not> allowed_attribute s))
   \<and> (objectType # attrs = good @ bad # rest \<and> (\<forall>s \<in> set good. allowed_attribute s)
         \<and> \<not> allowed_attribute bad \<longrightarrow>
        (\<exists>e. CreateCompositeKey objectType attrs = ('''', Some e) \<and>
           (if ValidString bad
            then \<exists>i r. find forbidden_rune (range_string 0 bad) = Some (i, r)
                   \<and> e = ForbiddenRune r i
            else e = NotValidUTF8 bad)))"
proof -
  have fail: "\<exists>e. CreateCompositeKey objectType attrs = ('''', Some e) \<and>
           (if ValidString bad
            then \<exists>i r. find forbidden_rune (range_string 0 bad) = Some (i, r)
                   \<and> e = ForbiddenRune r i
            else e = NotValidUTF8 bad)"
    if split: "objectType # attrs = good @ bad # rest"
      and good: "\<forall>s \<in> set good. allowed_attribute s" and bad: "\<not> allowed_attribute bad"
    for good bad rest
  proof -
    from Validate_error [OF bad] obtain e where
      e: "ValidateCompositeKeyAttribute bad = Some e"
      and shape: "if ValidString bad
            then \<exists>i r. find forbidden_rune (range_string 0 bad) = Some (i, r)
                   \<and> e = ForbiddenRune r i
            else e = NotValidUTF8 bad" by blast
    have "CreateCompositeKey objectType attrs = ('''', Some e)"
    proof (cases good)
      case Nil
      with split have "objectType = bad" by simp
      with e show ?thesis by (simp add: CreateCompositeKey_def)
    next
      case (Cons g gs)
      with split have ot: "objectType = g" and at: "attrs = gs @ bad # rest" by simp_all
      from good Cons have g: "allowed_attribute g" and gs: "\<forall>a \<in> set gs. allowed_attribute a"
        by simp_all
      from append_attributes_first_bad [OF gs, of _ bad rest] bad e
      have "append_attributes (compositeKeyNamespace @ g @ delimiter) (gs @ bad # rest)
              = ('''', Some e)" by metis
      with g ot at show ?thesis by (simp add: CreateCompositeKey_def allowed_Validate)
    qed
    with shape show ?thesis by blast
  qed
  have iff: "snd (CreateCompositeKey objectType attrs) \<noteq> None
      \<longleftrightarrow> (\<exists>s \<in> set (objectType # attrs). \<not> allowed_attribute s)"
  proof (cases "\<exists>s \<in> set (objectType # attrs). \<not> allowed_attribute s")
    case False
    then show ?thesis by (simp add: CreateCompositeKey_ok)
  next
    case True
    then obtain good bad rest where "objectType # attrs = good @ bad # rest"
      "\<forall>s \<in> set good. allowed_attribute s" "\<not> allowed_attribute bad"
      using split_list_first_prop [of "objectType # attrs" "\<lambda>s. \<not> allowed_attribute s"]
      by auto
    from fail [OF this] True show ?thesis by auto
  qed
  from iff fail show ?thesis by blast
qed

theorem CreateCompositeKey_failure_witness:
  "''ztoken'' # [''tx1'', [CHR ''a'', CHR 0xF4, CHR 0x8F, CHR 0xBF, CHR 0xBF], [CHR 0xFF]]
      = [''ztoken'', ''tx1''] @ [CHR ''a'', CHR 0xF4, CHR 0x8F, CHR 0xBF, CHR 0xBF] # [[CHR 0xFF]]
   \<and> allowed_attribute ''ztoken'' \<and> allowed_attribute ''tx1''
   \<and> \<not> allowed_attribute [CHR ''a'', CHR 0xF4, CHR 0x8F, CHR 0xBF, CHR 0xBF]
   \<and> CreateCompositeKey ''ztoken''
         [''tx1'', [CHR ''a'', CHR 0xF4, CHR 0x8F, CHR 0xBF, CHR 0xBF], [CHR 0xFF]]
       = ('''', Some (ForbiddenRune 0x10FFFF 1))"
proof -
  have a: "\<forall>s \<in> set [''ztoken'', ''tx1'']. allowed_attribute s"
    by (auto intro!: ascii_allowed)
  have f: "find forbidden_rune
             (range_string 0 [CHR ''a'', CHR 0xF4, CHR 0x8F, CHR 0xBF, CHR 0xBF])
           = Some (1, 0x10FFFF)"
    by (simp add: range_string_a_max minUnicodeRuneValue_def MaxUnicodeRuneValue_def)
  from CreateCompositeKey_failure
         [of "''ztoken''" "[''tx1'', [CHR ''a'', CHR 0xF4, CHR 0x8F, CHR 0xBF, CHR 0xBF], [CHR 0xFF]]"
             "[''ztoken'', ''tx1'']" "[CHR ''a'', CHR 0xF4, CHR 0x8F, CHR 0xBF, CHR 0xBF]"
             "[[CHR 0xFF]]"]
       a not_allowed_a_max valid_a_max f
  show ?thesis by auto
qed

text \<open>
  Claim C6 as stated says that the error of a failing \<open>CreateCompositeKey\<close> names the
  offending codepoint and its position. For the attribute made of the single byte
  \<^verbatim>\<open>0xFF\<close>, which is not valid UTF-8, the error names neither.
\<close>

theorem invalid_utf8_error_counterexample:
  "\<not> ValidString [CHR 0xFF]
   \<and> CreateCompositeKey ''ztoken'' [[CHR 0xFF]] = ('''', Some (NotValidUTF8 [CHR 0xFF]))
   \<and> named_codepoint (NotValidUTF8 [CHR 0xFF]) = None"
proof -
  have v: "\<not> ValidString [CHR 0xFF]"
    by (simp add: ValidString.simps DecodeRuneInString_def byte_at_def lead_size_def)
  have a: "ValidateCompositeKeyAttribute ''ztoken'' = None"
    by (rule allowed_Validate, rule ascii_allowed) simp
  from v a show ?thesis
    by (simp add: CreateCompositeKey_def ValidateCompositeKeyAttribute_def)
qed

text \<open>
  Claim C7. For an allowed object type and allowed attributes the key is the byte
  \<^verbatim>\<open>0x00\<close>, the object type, the byte \<^verbatim>\<open>0x00\<close>, then each attribute followed by the byte
  \<^verbatim>\<open>0x00\<close>, in order; two keys built with the same object type both start with the byte
  \<^verbatim>\<open>0x00\<close>, the object type and the byte \<^verbatim>\<open>0x00\<close>.
\<close>

theorem CreateCompositeKey_framing:
  assumes "allowed_attribute objectType" and "\<forall>a \<in> set attrs. allowed_attribute a"
    and "\<forall>a \<in> set attrs'. allowed_attribute a"
  shows "CreateCompositeKey objectType attrs
           = (CHR 0x00 # objectType @ CHR 0x00 # concat (map (\<lambda>a. a @ [CHR 0x00]) attrs), None)
         \<and> take (length objectType + 2) (fst (CreateCompositeKey objectType attrs))
             = CHR 0x00 # objectType @ [CHR 0x00]
         \<and> take (length objectType + 2) (fst (CreateCompositeKey objectType attrs'))
             = CHR 0x00 # objectType @ [CHR 0x00]"
  using assms by (simp add: CreateCompositeKey_ok framed_def)

theorem CreateCompositeKey_framing_witness:
  "allowed_attribute ''ztoken'' \<and> allowed_attribute ''iam'' \<and> allowed_attribute ''h1''
   \<and> allowed_attribute ''setup.hash''
   \<and> CreateCompositeKey ''ztoken'' [''iam'', ''h1'']
       = (CHR 0x00 # ''ztoken'' @ CHR 0x00 # ''iam'' @ CHR 0x00 # ''h1'' @ [CHR 0x00], None)
   \<and> take (length ''ztoken'' + 2) (fst (CreateCompositeKey ''ztoken'' [''setup.hash'']))
       = CHR 0x00 # ''ztoken'' @ [CHR 0x00]"
proof -
  have a: "allowed_attribute ''ztoken''" by (rule ascii_allowed) simp
  have b: "\<forall>a \<in> set [''iam'', ''h1'']. allowed_attribute a" by (auto intro!: ascii_allowed)
  have c: "\<forall>a \<in> set [''setup.hash'']. allowed_attribute a" by (auto intro!: ascii_allowed)
  from CreateCompositeKey_framing [OF a b c] a b c show ?thesis by simp
qed

text \<open>
  Claim C9. \<open>CreateTokenKey txID index\<close> is the key of object type \<open>ztoken\<close> with the two
  attributes \<open>txID\<close> and the decimal rendering of \<open>index\<close>: a non-empty string of decimal
  digits that denotes \<open>index\<close> and has no leading zero when it is longer than one digit.
  When \<open>txID\<close> is allowed, the key splits into \<open>ztoken\<close> and exactly these two
  attributes.
\<close>

theorem CreateTokenKey_shape:
  "CreateTokenKey txID index = CreateCompositeKey ''ztoken'' [txID, FormatUint index]
   \<and> digits_value (FormatUint index) = unat index
   \<and> set (FormatUint index) \<subseteq> set ''0123456789''
   \<and> FormatUint index \<noteq> []
   \<and> (1 < length (FormatUint index) \<longrightarrow> hd (FormatUint index) \<noteq> CHR ''0'')
   \<and> (allowed_attribute txID \<longrightarrow>
        SplitCompositeKey (fst (CreateTokenKey txID index))
          = (''ztoken'', [txID, FormatUint index], None))"
proof -
  have 1: "CreateTokenKey txID index = CreateCompositeKey ''ztoken'' [txID, FormatUint index]"
    by (simp add: CreateTokenKey_def TokenKeyPrefix_def)
  have 2: "digits_value (FormatUint index) = unat index"
    by (simp add: FormatUint_def digits_value_decimal)
  have 3: "set (FormatUint index) \<subseteq> set ''0123456789''"
    using decimal_digits [of _ "unat index"] by (auto simp: FormatUint_def digits_def)
  have 4: "SplitCompositeKey (fst (CreateTokenKey txID index))
          = (''ztoken'', [txID, FormatUint index], None)" if "allowed_attribute txID"
  proof -
    have b: "\<forall>a \<in> set [txID, FormatUint index]. allowed_attribute a"
      using that FormatUint_allowed by simp
    show ?thesis
      using CreateCompositeKey_ok [OF ztoken_allowed b] Split_built [OF ztoken_allowed b]
      by (simp add: CreateTokenKey_def TokenKeyPrefix_def)
  qed
  have 5: "FormatUint index \<noteq> []"
    by (simp add: FormatUint_def decimal_nonempty)
  have 6: "1 < length (FormatUint index) \<longrightarrow> hd (FormatUint index) \<noteq> CHR ''0''"
    by (simp add: FormatUint_def decimal_canonical)
  from 1 2 3 4 5 6 show ?thesis by blast
qed

theorem CreateTokenKey_shape_witness:
  "allowed_attribute ''tx1'' \<and> FormatUint 3 = ''3''
   \<and> SplitCompositeKey (fst (CreateTokenKey ''tx1'' 3)) = (''ztoken'', [''tx1'', ''3''], None)
   \<and> FormatUint 1024 = ''1024'' \<and> 1 < length (FormatUint 1024)
   \<and> hd (FormatUint 1024) \<noteq> CHR ''0''
   \<and> SplitCompositeKey (fst (CreateTokenKey ''tx1'' 1024))
       = (''ztoken'', [''tx1'', ''1024''], None)"
proof -
  have a: "allowed_attribute ''tx1''" by (rule ascii_allowed) simp
  have f: "FormatUint 3 = ''3''"
    by (simp add: FormatUint_def decimal.simps digits_def)
  have g: "FormatUint 1024 = ''1024''"
    by (simp add: FormatUint_def decimal.simps digits_def)
  have l: "1 < length (FormatUint 1024)" by (simp add: g)
  from CreateTokenKey_shape [of "''tx1''" 3] a
  have s3: "SplitCompositeKey (fst (CreateTokenKey ''tx1'' 3))
          = (''ztoken'', [''tx1'', FormatUint 3], None)" by blast
  from CreateTokenKey_shape [of "''tx1''" 1024] a l
  have s4: "SplitCompositeKey (fst (CreateTokenKey ''tx1'' 1024))
          = (''ztoken'', [''tx1'', FormatUint 1024], None)"
    and h: "hd (FormatUint 1024) \<noteq> CHR ''0''" by blast+
  from a f g l s3 s4 h show ?thesis by simp
qed

text \<open>
  Claim C10. For every allowed \<open>txID\<close> and every 64-bit \<open>index\<close>, \<open>CreateTokenKey\<close> returns
  no error: the rendering of \<open>index\<close> consists of decimal digits only and passes the
  validation of attributes.
\<close>

theorem CreateTokenKey_succeeds:
  assumes "allowed_attribute txID"
  shows "snd (CreateTokenKey txID index) = None
         \<and> set (FormatUint index) \<subseteq> set ''0123456789''
         \<and> ValidateCompositeKeyAttribute (FormatUint index) = None"
proof -
  have b: "\<forall>a \<in> set [txID, FormatUint index]. allowed_attribute a"
    using assms FormatUint_allowed by simp
  have 1: "snd (CreateTokenKey txID index) = None"
    using CreateCompositeKey_ok [OF ztoken_allowed b] by (simp add: CreateTokenKey_def)
  have 2: "set (FormatUint index) \<subseteq> set ''0123456789''"
    using decimal_digits [of _ "unat index"] by (auto simp: FormatUint_def digits_def)
  have 3: "ValidateCompositeKeyAttribute (FormatUint index) = None"
    by (rule allowed_Validate) (rule FormatUint_allowed)
  from 1 2 3 show ?thesis by blast
qed

theorem CreateTokenKey_succeeds_witness:
  "allowed_attribute ''9f2c'' \<and> snd (CreateTokenKey ''9f2c'' 18446744073709551615) = None"
proof -
  have a: "allowed_attribute ''9f2c''" by (rule ascii_allowed) simp
  from CreateTokenKey_succeeds [OF a, of 18446744073709551615] a show ?thesis by simp
qed

text \<open>The renderings that the specification gives as examples, at precision two.\<close>

lemma ToDecimalString_examples:
  "ToDecimalString \<lparr>precision = 2, magnitude = 1050\<rparr> = ''10.50''"
  "ToDecimalString \<lparr>precision = 2, magnitude = 301\<rparr> = ''3.01''"
  "ToDecimalString \<lparr>precision = 2, magnitude = 825\<rparr> = ''8.25''"
  by (simp_all add: ToDecimalString_def Let_def decimal.simps digits_def)

section \<open>Claims about the balance view\<close>

text \<open>
  Claim C4. When the wallet exists and lists its unspent tokens, and the quantity text of
  some listed token fails to parse at the precision of the public parameters, \<open>Call\<close>
  returns no balance and the parse error of the first such token, whatever the quantities
  before it add up to.
\<close>

theorem Call_propagates_parse_error:
  assumes "OwnerWallet C (Wallet b) = Some wallet"
    and "wallet (BalanceQuery.Type b) = Inr toks"
    and "tok \<in> set toks"
    and "ToQuantity C (UnspentToken.Quantity tok) (Precision C) = Inl err"
  shows "fst (Call C b) = None \<and>
     (\<exists>good bad rest e. toks = good @ bad # rest
        \<and> (\<forall>t \<in> set good. \<exists>q. ToQuantity C (UnspentToken.Quantity t) (Precision C) = Inr q)
        \<and> ToQuantity C (UnspentToken.Quantity bad) (Precision C) = Inl e
        \<and> Call C b = (None, Some (Collaborator e)))"
proof -
  let ?fails = "\<lambda>t. \<exists>e. ToQuantity C (UnspentToken.Quantity t) (Precision C) = Inl e"
  from assms(3,4) have "\<exists>t \<in> set toks. ?fails t" by blast
  then obtain good bad rest where split: "toks = good @ bad # rest"
    and bad: "?fails bad" and good: "\<forall>t \<in> set good. \<not> ?fails t"
    using split_list_first_prop [of toks ?fails] by blast
  from bad obtain e where e: "ToQuantity C (UnspentToken.Quantity bad) (Precision C) = Inl e"
    by blast
  have ok: "\<forall>t \<in> set good. \<exists>q. ToQuantity C (UnspentToken.Quantity t) (Precision C) = Inr q"
  proof
    fix t assume "t \<in> set good"
    with good have "\<not> ?fails t" by blast
    then show "\<exists>q. ToQuantity C (UnspentToken.Quantity t) (Precision C) = Inr q"
      by (cases "ToQuantity C (UnspentToken.Quantity t) (Precision C)") auto
  qed
  have "sum_tokens C (Precision C) (NewZeroQuantity C (Precision C)) toks = Inl e"
    unfolding split using ok e by (rule sum_tokens_first_error)
  with assms(1,2) have call: "Call C b = (None, Some (Collaborator e))"
    by (simp add: Call_def)
  with split ok e show ?thesis by auto
qed

theorem Call_propagates_parse_error_witness:
  "Call \<lparr>OwnerWallet = (\<lambda>w. if w = ''alice'' then Some (\<lambda>ty. Inr
              [\<lparr>UnspentToken.Quantity = ''5.00''\<rparr>, \<lparr>UnspentToken.Quantity = ''2,50''\<rparr>,
               \<lparr>UnspentToken.Quantity = ''0.75''\<rparr>]) else None),
          Precision = 2,
          NewZeroQuantity = (\<lambda>p. 0::nat),
          ToQuantity = (\<lambda>s p. if CHR '','' \<in> set s then Inl (''invalid quantity '' @ s)
                               else Inr (length s)),
          Add = (+),
          Decimal = decimal\<rparr>
        \<lparr>Wallet = ''alice'', Type = ''USD''\<rparr>
     = (None, Some (Collaborator ''invalid quantity 2,50''))"
proof -
  let ?toks = "[\<lparr>UnspentToken.Quantity = ''5.00''\<rparr>, \<lparr>UnspentToken.Quantity = ''2,50''\<rparr>,
               \<lparr>UnspentToken.Quantity = ''0.75''\<rparr>]"
  let ?C = "\<lparr>OwnerWallet = (\<lambda>w. if w = ''alice'' then Some (\<lambda>ty. Inr ?toks) else None),
          Precision = 2,
          NewZeroQuantity = (\<lambda>p. 0::nat),
          ToQuantity = (\<lambda>s p. if CHR '','' \<in> set s then Inl (''invalid quantity '' @ s)
                               else Inr (length s)),
          Add = (+),
          Decimal = decimal\<rparr>"
  let ?b = "\<lparr>Wallet = ''alice'', Type = ''USD''\<rparr>"
  have 1: "OwnerWallet ?C (Wallet ?b) = Some (\<lambda>ty. Inr ?toks)" by simp
  have 2: "(\<lambda>ty. Inr ?toks :: string + UnspentToken list) (BalanceQuery.Type ?b) = Inr ?toks"
    by simp
  have 3: "\<lparr>UnspentToken.Quantity = ''2,50''\<rparr> \<in> set ?toks" by simp
  have 4: "ToQuantity ?C (UnspentToken.Quantity \<lparr>UnspentToken.Quantity = ''2,50''\<rparr>) (Precision ?C)
             = Inl ''invalid quantity 2,50''" by simp
  from Call_propagates_parse_error [OF 1 2 3 4]
  obtain good bad rest e where s: "?toks = good @ bad # rest"
    and g: "\<forall>t \<in> set good. \<exists>q. ToQuantity ?C (UnspentToken.Quantity t) (Precision ?C) = Inr q"
    and e: "ToQuantity ?C (UnspentToken.Quantity bad) (Precision ?C) = Inl e"
    and c: "Call ?C ?b = (None, Some (Collaborator e))" by blast
  from e have "e = ''invalid quantity '' @ UnspentToken.Quantity bad"
    by (simp split: if_splits)
  moreover from e have "CHR '','' \<in> set (UnspentToken.Quantity bad)"
    by (simp split: if_splits)
  moreover from s have "bad \<in> set ?toks" by (metis in_set_conv_decomp)
  ultimately have "e = ''invalid quantity 2,50''" by auto
  with c show ?thesis by simp
qed

text \<open>
  Claim C8. When the wallet exists and lists no unspent token, \<open>Call\<close> returns no error
  and the balance of the queried type whose quantity is the rendering of zero at the
  precision \<open>P\<close> of the public parameters: \<open>0\<close> followed, when \<open>P\<close> is positive, by a
  point and \<open>P\<close> zeros.
\<close>

theorem Call_empty_balance:
  assumes "OwnerWallet C (Wallet b) = Some wallet"
    and "wallet (BalanceQuery.Type b) = Inr []"
    and "NewZeroQuantity C = Zero"
    and "Decimal C = ToDecimalString"
  shows "Call C b =
     (Some \<lparr>Balance.Type = BalanceQuery.Type b,
            Balance.Quantity = (if Precision C = 0 then ''0''
                                else ''0.'' @ replicate (Precision C) (CHR ''0''))\<rparr>, None)"
  using assms by (simp add: Call_def ToDecimalString_Zero)

theorem Call_empty_balance_witness:
  "Call \<lparr>OwnerWallet = (\<lambda>w. if w = ''alice'' then Some (\<lambda>ty. Inr []) else None),
          Precision = 2,
          NewZeroQuantity = Zero,
          ToQuantity = (\<lambda>s p. Inl ''unused''),
          Add = (\<lambda>a b. a),
          Decimal = ToDecimalString\<rparr>
        \<lparr>Wallet = ''alice'', Type = ''USD''\<rparr>
     = (Some \<lparr>Balance.Type = ''USD'', Balance.Quantity = ''0.00''\<rparr>, None)"
proof -
  let ?C = "\<lparr>OwnerWallet = (\<lambda>w. if w = ''alice'' then Some (\<lambda>ty. Inr []) else None),
          Precision = 2,
          NewZeroQuantity = Zero,
          ToQuantity = (\<lambda>s p. Inl ''unused'' :: string + FixedQuantity),
          Add = (\<lambda>a b. a),
          Decimal = ToDecimalString\<rparr>"
  let ?b = "\<lparr>Wallet = ''alice'', Type = ''USD''\<rparr>"
  have 1: "OwnerWallet ?C (Wallet ?b) = Some (\<lambda>ty. Inr [])" by simp
  have 2: "(\<lambda>ty. Inr [] :: string + UnspentToken list) (BalanceQuery.Type ?b) = Inr []" by simp
  have 3: "NewZeroQuantity ?C = Zero" by simp
  have 4: "Decimal ?C = ToDecimalString" by simp
  have r: "replicate 2 (CHR ''0'') = ''00''" by (simp add: numeral_2_eq_2)
  from Call_empty_balance [OF 1 2 3 4] show ?thesis by (simp add: r)
qed

end
